theory Spec2Isabelle
  imports Main "HOL-Library.Word"
begin

section \<open>The worker pool of the ThreadManager (cpp/src/helpers/worker_thread.cpp)\<close>

subsection \<open>Data\<close>

text \<open>
  Modelled from the spec: the enumeration \<open>Affinity\<close> is declared in a header that is
  not among the sources. The spec names two affinity classes, even and odd; the source
  only ever mentions \<open>Affinity::Odd\<close>.
\<close>

datatype Affinity = Even | Odd

text \<open>
  Modelled from the spec: the class template \<open>WorkerThread\<close> is declared in
  \<open>helpers/worker_thread.hpp\<close>, which is not among the sources. Of the fields the spec
  lists for a Worker (thread handle, GPU context state, task queue, affinity tag,
  is-working flag) the record keeps the name and the affinity tag given to the
  constructor and the is-working flag. The tasks of the queue are left out: the spec
  leaves open whether \<open>releaseQueue\<close> runs or discards them.
\<close>

record WorkerThread =
  mName :: string
  mAffinity :: Affinity
  mIsWorking :: bool

text \<open>
  A \<open>WorkerThread*\<close> is an index into the store of all WorkerThread objects constructed so
  far (no WorkerThread is ever deleted by the code). Dereferencing a pointer that does not
  point to a constructed object is undefined behaviour in C++; the model makes it the
  error \<open>InvalidPointer\<close>.
\<close>

datatype error = InvalidPointer

text \<open>
  What a call does, in program order: the lock taken and given back, objects constructed
  (with the arguments of the constructor), the calls on a Worker, the callbacks run, and
  the pushes and pops of the pool. A callback (\<open>std::function<void()>\<close>) is opaque: the
  model records that it ran, its effect lies outside the ThreadManager.
\<close>

datatype 'cb event =
    LockGuard
  | Unlocked
  | Constructed nat string Affinity
  | IsWorkingSet nat bool
  | CallbackRun 'cb
  | QueueReleased nat
  | Popped nat
  | Pushed nat

text \<open>
  The state a member function of the ThreadManager works on: its stack \<open>mThreadPool\<close> (the
  top is the head of the list), the store of WorkerThread objects, and the trace.
\<close>

record 'cb state =
  mThreadPool :: "nat list"
  workers :: "WorkerThread list"
  trace :: "'cb event list"

definition emit :: "'cb event list \<Rightarrow> 'cb state \<Rightarrow> 'cb state" where
  "emit es s = s\<lparr>trace := trace s @ es\<rparr>"

subsection \<open>The operations of a Worker that the ThreadManager calls\<close>

text \<open>
  Modelled from the spec: the constructor \<open>WorkerThread(name, affinity)\<close> is not among the
  sources. The affinity tag is "assigned at creation time and fixed for the Worker's
  lifetime"; a Worker is created not working. \<open>new\<close> returns the address of the new
  object, which is the next free index of the store.
\<close>

definition new_WorkerThread :: "string \<Rightarrow> Affinity \<Rightarrow> 'cb state \<Rightarrow> nat \<times> 'cb state" where
  "new_WorkerThread name affinity s =
     (let thread = length (workers s) in
      (thread,
       emit [Constructed thread name affinity]
         (s\<lparr>workers := workers s @
               [\<lparr>mName = name, mAffinity = affinity, mIsWorking = False\<rparr>]\<rparr>)))"

text \<open>
  Modelled from the spec: \<open>WorkerThread::setIsWorking\<close> is not among the sources.
  "\<open>setIsWorking(bool, onTransition)\<close>: toggles whether the Worker is considered lent out;
  the optional callback runs once, synchronized with the state flip". The callback is
  optional: \<open>releaseThread\<close> calls \<open>setIsWorking(false)\<close> without one.
\<close>

definition setIsWorking :: "nat \<Rightarrow> bool \<Rightarrow> 'cb option \<Rightarrow> 'cb state \<Rightarrow> error + 'cb state" where
  "setIsWorking thread isIt onTransition s =
     (if thread < length (workers s)
      then Inr (emit (IsWorkingSet thread isIt #
                      (case onTransition of None \<Rightarrow> [] | Some cb \<Rightarrow> [CallbackRun cb]))
                  (s\<lparr>workers := (workers s)[thread := (workers s ! thread)\<lparr>mIsWorking := isIt\<rparr>]\<rparr>))
      else Inl InvalidPointer)"

text \<open>
  Modelled from the spec: \<open>WorkerThread::releaseQueue\<close> is not among the sources.
  "\<open>releaseQueue(onRelease)\<close>: drains any remaining tasks (or discards them) and runs a
  release callback before the Worker is returned to the pool".
\<close>

definition releaseQueue :: "nat \<Rightarrow> 'cb \<Rightarrow> 'cb state \<Rightarrow> error + 'cb state" where
  "releaseQueue thread onRelease s =
     (if thread < length (workers s)
      then Inr (emit [QueueReleased thread, CallbackRun onRelease] s)
      else Inl InvalidPointer)"

text \<open>\<open>mThreadPool.push(thread)\<close> of \<open>std::stack\<close>.\<close>

definition push :: "nat \<Rightarrow> 'cb state \<Rightarrow> 'cb state" where
  "push thread s = emit [Pushed thread] (s\<lparr>mThreadPool := thread # mThreadPool s\<rparr>)"

subsection \<open>acquireThread and releaseThread\<close>

text \<open>
  \<^verbatim>\<open>
  WorkerThread<EGLThreadState>*
  ThreadManager::acquireThread(const char* name, std::function<void()> onAcquire)
  {
      std::lock_guard<std::mutex> threadLock(mMutex);
      WorkerThread<EGLThreadState>* thread = nullptr;
      if (mThreadPool.empty())
      {
          thread = new WorkerThread<EGLThreadState>(name, Affinity::Odd);
      }
      else
      {
          thread = mThreadPool.top();
          mThreadPool.pop();
      }
      thread->setIsWorking(true, onAcquire);
      return thread;
  }
  \<close>
\<close>

definition acquireThread :: "string \<Rightarrow> 'cb \<Rightarrow> 'cb state \<Rightarrow> error + (nat \<times> 'cb state)" where
  "acquireThread name onAcquire s =
     (let s1 = emit [LockGuard] s;
          (thread, s2) =
            (case mThreadPool s1 of
               [] \<Rightarrow> new_WorkerThread name Odd s1
             | t # rest \<Rightarrow> (t, emit [Popped t] (s1\<lparr>mThreadPool := rest\<rparr>)))
      in case setIsWorking thread True (Some onAcquire) s2 of
           Inl e \<Rightarrow> Inl e
         | Inr s3 \<Rightarrow> Inr (thread, emit [Unlocked] s3))"

text \<open>
  \<^verbatim>\<open>
  void ThreadManager::releaseThread(WorkerThread<EGLThreadState>* thread,
                                    std::function<void()> onRelease)
  {
      std::lock_guard<std::mutex> threadLock(mMutex);
      // Thread state needs to release its resources also.
      thread->setIsWorking(false);
      thread->releaseQueue(onRelease);
      mThreadPool.push(thread);
  }
  \<close>
\<close>

definition releaseThread :: "nat \<Rightarrow> 'cb \<Rightarrow> 'cb state \<Rightarrow> error + 'cb state" where
  "releaseThread thread onRelease s =
     (let s1 = emit [LockGuard] s in
      case setIsWorking thread False None s1 of
        Inl e \<Rightarrow> Inl e
      | Inr s2 \<Rightarrow>
          (case releaseQueue thread onRelease s2 of
             Inl e \<Rightarrow> Inl e
           | Inr s3 \<Rightarrow> Inr (emit [Unlocked] (push thread s3))))"

text \<open>A ThreadManager as its constructor leaves it, before any Worker exists.\<close>

definition initial :: "'cb state" where
  "initial = \<lparr>mThreadPool = [], workers = [], trace = []\<rparr>"

subsection \<open>Sequences of calls\<close>

text \<open>
  The ThreadManager does not record which Workers are lent out: a Worker is lent out when
  a caller holds the pointer that \<open>acquireThread\<close> returned and has not given it back with
  \<open>releaseThread\<close>. A sequence of calls is run on the state of the ThreadManager together
  with the list of the pointers that callers hold.
\<close>

datatype 'cb call = AcquireThread string 'cb | ReleaseThread nat 'cb

fun do_call :: "'cb call \<Rightarrow> 'cb state \<times> nat list \<Rightarrow> error + 'cb state \<times> nat list" where
  "do_call (AcquireThread name onAcquire) (s, lent) =
     (case acquireThread name onAcquire s of
        Inl e \<Rightarrow> Inl e
      | Inr (thread, s') \<Rightarrow> Inr (s', thread # lent))"
| "do_call (ReleaseThread thread onRelease) (s, lent) =
     (case releaseThread thread onRelease s of
        Inl e \<Rightarrow> Inl e
      | Inr s' \<Rightarrow> Inr (s', remove1 thread lent))"

fun do_calls :: "'cb call list \<Rightarrow> 'cb state \<times> nat list \<Rightarrow> error + 'cb state \<times> nat list" where
  "do_calls [] c = Inr c"
| "do_calls (x # xs) c = (case do_call x c of Inl e \<Rightarrow> Inl e | Inr c' \<Rightarrow> do_calls xs c')"

text \<open>
  The callers keep to the protocol when every \<open>releaseThread\<close> of the sequence is given a
  Worker that is lent out at that moment.
\<close>

fun releases_lent :: "'cb call list \<Rightarrow> 'cb state \<times> nat list \<Rightarrow> bool" where
  "releases_lent [] c = True"
| "releases_lent (AcquireThread name onAcquire # xs) c =
     (case do_call (AcquireThread name onAcquire) c of
        Inl e \<Rightarrow> True
      | Inr c' \<Rightarrow> releases_lent xs c')"
| "releases_lent (ReleaseThread thread onRelease # xs) c =
     (thread \<in> set (snd c) \<and>
      (case do_call (ReleaseThread thread onRelease) c of
         Inl e \<Rightarrow> True
       | Inr c' \<Rightarrow> releases_lent xs c'))"

text \<open>
  Every Worker of the store is in the pool or lent out and never both, and no Worker is
  twice in the pool or lent twice.
\<close>

definition pool_xor_lent :: "'cb state \<times> nat list \<Rightarrow> bool" where
  "pool_xor_lent c =
     (distinct (mThreadPool (fst c) @ snd c) \<and>
      set (mThreadPool (fst c)) \<union> set (snd c) = {..<length (workers (fst c))})"

text \<open>The affinity tags of the Workers constructed so far, in the order of construction.\<close>

definition affinities :: "'cb state \<Rightarrow> Affinity list" where
  "affinities s = map mAffinity (workers s)"

text \<open>Tags alternate when no two successive ones are equal.\<close>

fun alternating :: "Affinity list \<Rightarrow> bool" where
  "alternating (a # b # rest) = (a \<noteq> b \<and> alternating (b # rest))"
| "alternating _ = True"

text \<open>
  The affinity tags that the calls of the trace passed to the constructor of a Worker, in
  the order of the calls.
\<close>

fun constructions :: "'cb event list \<Rightarrow> Affinity list" where
  "constructions [] = []"
| "constructions (Constructed thread name affinity # es) = affinity # constructions es"
| "constructions (e # es) = constructions es"

section \<open>The singleton (ThreadManager::getInstance)\<close>

text \<open>
  The static members: the pointer \<open>mInstance\<close> (\<open>None\<close> is \<open>nullptr\<close>), the number of
  ThreadManager objects constructed so far (the n-th object constructed has address n),
  and what the calls did to the mutex and to the pointer, in program order.
\<close>

datatype access = MutexLocked | InstanceChecked | ManagerConstructed nat | MutexUnlocked

record statics =
  mInstance :: "nat option"
  constructed :: nat
  accesses :: "access list"

definition logged :: "access \<Rightarrow> statics \<Rightarrow> statics" where
  "logged a g = g\<lparr>accesses := accesses g @ [a]\<rparr>"

text \<open>\<open>mInstance = new ThreadManager()\<close>.\<close>

definition new_ThreadManager :: "statics \<Rightarrow> statics" where
  "new_ThreadManager g =
     logged (ManagerConstructed (constructed g))
       (g\<lparr>mInstance := Some (constructed g), constructed := Suc (constructed g)\<rparr>)"

text \<open>
  \<^verbatim>\<open>
  ThreadManager* ThreadManager::getInstance()
  {
      std::lock_guard<std::mutex> lock(mMutex);
      if (mInstance == nullptr)
      {
          mInstance = new ThreadManager();
      }
      return mInstance;
  }
  \<close>
\<close>

definition getInstance :: "statics \<Rightarrow> nat option \<times> statics" where
  "getInstance g =
     (let g1 = logged MutexLocked g;
          g2 = logged InstanceChecked g1;
          g3 = (if mInstance g2 = None then new_ThreadManager g2 else g2)
      in (mInstance g3, logged MutexUnlocked g3))"

text \<open>
  The algorithm in the words of the spec, for comparison: "double-checked locking:
  check-without-lock, then lock-and-recheck-then-construct, to avoid lock overhead on the
  common read path".
\<close>

definition getInstance_double_checked :: "statics \<Rightarrow> nat option \<times> statics" where
  "getInstance_double_checked g =
     (let g1 = logged InstanceChecked g in
      if mInstance g1 = None
      then (let g2 = logged MutexLocked g1;
                g3 = logged InstanceChecked g2;
                g4 = (if mInstance g3 = None then new_ThreadManager g3 else g3)
            in (mInstance g4, logged MutexUnlocked g4))
      else (mInstance g1, g1))"

text \<open>The statics at program start, and n calls of \<open>getInstance\<close> one after the other.\<close>

definition startup :: statics where
  "startup = \<lparr>mInstance = None, constructed = 0, accesses = []\<rparr>"

fun getInstances :: "nat \<Rightarrow> statics \<Rightarrow> nat option list \<times> statics" where
  "getInstances 0 g = ([], g)"
| "getInstances (Suc n) g =
     (case getInstance g of
        (r, g1) \<Rightarrow> (case getInstances n g1 of (rs, g2) \<Rightarrow> (r # rs, g2)))"

section \<open>The binding cppInputCount (cpp/src/bindings/bindings_state_machine_instance.cpp)\<close>

type_synonym jint = "32 word"
type_synonym jlong = "64 word"

text \<open>
  \<^verbatim>\<open>
  JNIEXPORT jint JNICALL Java_app_rive_runtime_kotlin_core_StateMachineInstance_cppInputCount(
      JNIEnv *env, jobject thisObj, jlong ref)
  {
      rive::StateMachineInstance *stateMachineInstance = (rive::StateMachineInstance *)ref;
      return (jlong)stateMachineInstance->inputCount();
  }
  \<close>
  The state machine instance belongs to the rive-cpp library; the binding is a function of
  what \<open>inputCount()\<close> returns, an unsigned \<open>size_t\<close> of the platform's width. The cast to
  \<open>jlong\<close> keeps the value, and the \<open>return\<close> converts the \<open>jlong\<close> to the declared \<open>jint\<close>,
  which keeps the low 32 bits. Java reads a \<open>jint\<close> as a signed number (\<open>sint\<close>).
\<close>

definition Java_app_rive_runtime_kotlin_core_StateMachineInstance_cppInputCount ::
    "'a::len word \<Rightarrow> jint" where
  "Java_app_rive_runtime_kotlin_core_StateMachineInstance_cppInputCount inputCount =
     (let count = (ucast inputCount :: jlong) in ucast count)"

section \<open>What acquireThread and releaseThread compute\<close>

lemmas worker_calls = emit_def new_WorkerThread_def setIsWorking_def releaseQueue_def push_def

lemma acquireThread_empty:
  "mThreadPool s = [] \<Longrightarrow>
   acquireThread name onAcquire s =
     Inr (length (workers s),
          s\<lparr>workers := workers s @ [\<lparr>mName = name, mAffinity = Odd, mIsWorking = True\<rparr>],
            trace := trace s @ [LockGuard, Constructed (length (workers s)) name Odd,
                                IsWorkingSet (length (workers s)) True, CallbackRun onAcquire,
                                Unlocked]\<rparr>)"
  by (simp add: acquireThread_def worker_calls Let_def)

lemma acquireThread_top:
  "mThreadPool s = t # rest \<Longrightarrow> t < length (workers s) \<Longrightarrow>
   acquireThread name onAcquire s =
     Inr (t,
          s\<lparr>mThreadPool := rest,
            workers := (workers s)[t := (workers s ! t)\<lparr>mIsWorking := True\<rparr>],
            trace := trace s @ [LockGuard, Popped t, IsWorkingSet t True, CallbackRun onAcquire,
                                Unlocked]\<rparr>)"
  by (simp add: acquireThread_def worker_calls Let_def)

lemma acquireThread_dangling:
  "mThreadPool s = t # rest \<Longrightarrow> \<not> t < length (workers s) \<Longrightarrow>
   acquireThread name onAcquire s = Inl InvalidPointer"
  by (simp add: acquireThread_def worker_calls Let_def)

lemma releaseThread_live:
  "thread < length (workers s) \<Longrightarrow>
   releaseThread thread onRelease s =
     Inr (s\<lparr>mThreadPool := thread # mThreadPool s,
            workers := (workers s)[thread := (workers s ! thread)\<lparr>mIsWorking := False\<rparr>],
            trace := trace s @ [LockGuard, IsWorkingSet thread False, QueueReleased thread,
                                CallbackRun onRelease, Pushed thread, Unlocked]\<rparr>)"
  by (simp add: releaseThread_def worker_calls Let_def)

lemma releaseThread_dangling:
  "\<not> thread < length (workers s) \<Longrightarrow> releaseThread thread onRelease s = Inl InvalidPointer"
  by (simp add: releaseThread_def worker_calls Let_def)

text \<open>Running a sequence of calls on concrete inputs unfolds these equations.\<close>

lemmas run_calls =
  initial_def acquireThread_def releaseThread_def worker_calls Let_def

section \<open>The claims about the pool\<close>

text \<open>
  Claim C6. For every call of \<open>acquireThread\<close> whose pool is empty or has a live Worker on
  top: the call returns. If the pool is not empty, the Worker returned is the top of the
  pool, it is removed from the pool and no Worker is constructed (the store keeps its
  length, the trace of the call has a pop and no construction). If the pool is empty, the
  Worker returned is a newly constructed one (the next address of the store), made with
  the name given and \<open>Affinity::Odd\<close>. In both cases the Worker returned is working
  afterwards, and the trace of the call has \<open>setIsWorking(true, onAcquire)\<close> once, with the
  callback run once, right at the flip.
\<close>

theorem acquireThread_pops_or_constructs:
  assumes "case mThreadPool s of [] \<Rightarrow> True | t # rest \<Rightarrow> t < length (workers s)"
  shows "\<exists>thread s'. acquireThread name onAcquire s = Inr (thread, s') \<and>
     (case mThreadPool s of
        [] \<Rightarrow>
          thread = length (workers s) \<and> mThreadPool s' = [] \<and>
          workers s' = workers s @ [\<lparr>mName = name, mAffinity = Odd, mIsWorking = True\<rparr>] \<and>
          trace s' = trace s @ [LockGuard, Constructed thread name Odd,
                                IsWorkingSet thread True, CallbackRun onAcquire, Unlocked]
      | t # rest \<Rightarrow>
          thread = t \<and> mThreadPool s' = rest \<and>
          length (workers s') = length (workers s) \<and>
          trace s' = trace s @ [LockGuard, Popped t,
                                IsWorkingSet t True, CallbackRun onAcquire, Unlocked]) \<and>
     thread < length (workers s') \<and> mIsWorking (workers s' ! thread) \<and>
     count_list (drop (length (trace s)) (trace s')) (CallbackRun onAcquire) = 1"
proof (cases "mThreadPool s")
  case Nil
  then show ?thesis by (simp add: acquireThread_empty)
next
  case (Cons t rest)
  with assms have "t < length (workers s)" by simp
  with Cons show ?thesis by (simp add: acquireThread_top)
qed

theorem acquireThread_pops_or_constructs_witness:
  "(case [0::nat] of [] \<Rightarrow> True
    | t # rest \<Rightarrow>
        t < length [\<lparr>mName = ''render-1'', mAffinity = Odd, mIsWorking = False\<rparr>]) \<and>
   acquireThread ''render-2'' ''makeCurrent''
       \<lparr>mThreadPool = [0],
        workers = [\<lparr>mName = ''render-1'', mAffinity = Odd, mIsWorking = False\<rparr>],
        trace = []\<rparr> =
     Inr (0, \<lparr>mThreadPool = [],
              workers = [\<lparr>mName = ''render-1'', mAffinity = Odd, mIsWorking = True\<rparr>],
              trace = [LockGuard, Popped 0, IsWorkingSet 0 True, CallbackRun ''makeCurrent'',
                       Unlocked]\<rparr>)"
  using acquireThread_pops_or_constructs
    [of "\<lparr>mThreadPool = [0],
         workers = [\<lparr>mName = ''render-1'', mAffinity = Odd, mIsWorking = False\<rparr>],
         trace = []\<rparr>" "''render-2''" "''makeCurrent''"]
  by (simp add: run_calls)

text \<open>
  Claim C7. For every call of \<open>releaseThread(thread, onRelease)\<close> on a live Worker: first
  \<open>setIsWorking(false)\<close> returns a state in which the Worker is not working, then
  \<open>releaseQueue(onRelease)\<close> runs on that state, and the push is applied to the state that
  \<open>releaseQueue\<close> returns. The pool is unchanged until the push, and the Worker is not
  working when it is pushed.
\<close>

theorem releaseThread_order:
  assumes "thread < length (workers s)"
  shows "\<exists>s1 s2.
           setIsWorking thread False None (emit [LockGuard] s) = Inr s1 \<and>
           releaseQueue thread onRelease s1 = Inr s2 \<and>
           releaseThread thread onRelease s = Inr (emit [Unlocked] (push thread s2)) \<and>
           mThreadPool s1 = mThreadPool s \<and> mThreadPool s2 = mThreadPool s \<and>
           \<not> mIsWorking (workers s1 ! thread) \<and> \<not> mIsWorking (workers s2 ! thread) \<and>
           mThreadPool (push thread s2) = thread # mThreadPool s \<and>
           trace (emit [Unlocked] (push thread s2)) =
             trace s @ [LockGuard, IsWorkingSet thread False, QueueReleased thread,
                        CallbackRun onRelease, Pushed thread, Unlocked]"
  using assms by (simp add: releaseThread_def worker_calls)

theorem releaseThread_order_witness:
  "(0::nat) < length [\<lparr>mName = ''render-1'', mAffinity = Odd, mIsWorking = True\<rparr>] \<and>
   releaseThread 0 ''doneCurrent''
       \<lparr>mThreadPool = [],
        workers = [\<lparr>mName = ''render-1'', mAffinity = Odd, mIsWorking = True\<rparr>],
        trace = []\<rparr> =
     Inr \<lparr>mThreadPool = [0],
          workers = [\<lparr>mName = ''render-1'', mAffinity = Odd, mIsWorking = False\<rparr>],
          trace = [LockGuard, IsWorkingSet 0 False, QueueReleased 0,
                   CallbackRun ''doneCurrent'', Pushed 0, Unlocked]\<rparr>"
  using releaseThread_order
    [of 0 "\<lparr>mThreadPool = [],
             workers = [\<lparr>mName = ''render-1'', mAffinity = Odd, mIsWorking = True\<rparr>],
             trace = []\<rparr>" "''doneCurrent''"]
  by (simp add: run_calls)

text \<open>
  Claim C8. When \<open>acquireThread\<close> has returned the Worker A, \<open>releaseThread(A)\<close> returns,
  and the next \<open>acquireThread\<close> returns, and what it returns is A again: it pops A and
  constructs nothing, and the pool and the Workers are what they were before the release.
\<close>

theorem release_then_acquire_reuses:
  assumes "acquireThread name onAcquire s = Inr (a, s1)"
  shows "\<exists>s2 s3. releaseThread a onRelease s1 = Inr s2 \<and>
           acquireThread name' onAcquire' s2 = Inr (a, s3) \<and>
           workers s3 = workers s1 \<and> mThreadPool s3 = mThreadPool s1 \<and>
           trace s3 = trace s2 @ [LockGuard, Popped a, IsWorkingSet a True,
                                  CallbackRun onAcquire', Unlocked]"
proof -
  have live: "a < length (workers s1)" and working: "mIsWorking (workers s1 ! a)"
    using assms
    by (cases "mThreadPool s"; cases "hd (mThreadPool s) < length (workers s)";
        auto simp: acquireThread_empty acquireThread_top acquireThread_dangling nth_append)+
  let ?s2 = "s1\<lparr>mThreadPool := a # mThreadPool s1,
            workers := (workers s1)[a := (workers s1 ! a)\<lparr>mIsWorking := False\<rparr>],
            trace := trace s1 @ [LockGuard, IsWorkingSet a False, QueueReleased a,
                                CallbackRun onRelease, Pushed a, Unlocked]\<rparr>"
  have r: "releaseThread a onRelease s1 = Inr ?s2"
    using live by (rule releaseThread_live)
  have same: "(workers s1)[a := (workers s1 ! a)\<lparr>mIsWorking := True\<rparr>] = workers s1"
  proof -
    have "(workers s1 ! a)\<lparr>mIsWorking := True\<rparr> = workers s1 ! a"
      using working by (cases "workers s1 ! a") simp
    then show ?thesis by simp
  qed
  have "mThreadPool ?s2 = a # mThreadPool s1" and "a < length (workers ?s2)"
    using live by simp_all
  from acquireThread_top [OF this, of name' onAcquire'] r same live
  show ?thesis by simp
qed

theorem release_then_acquire_reuses_witness:
  "acquireThread ''render-1'' ''makeCurrent'' (initial :: string state) =
     Inr (0, \<lparr>mThreadPool = [],
              workers = [\<lparr>mName = ''render-1'', mAffinity = Odd, mIsWorking = True\<rparr>],
              trace = [LockGuard, Constructed 0 ''render-1'' Odd, IsWorkingSet 0 True,
                       CallbackRun ''makeCurrent'', Unlocked]\<rparr>) \<and>
   (\<exists>s2 s3.
      releaseThread 0 ''doneCurrent''
          \<lparr>mThreadPool = [],
           workers = [\<lparr>mName = ''render-1'', mAffinity = Odd, mIsWorking = True\<rparr>],
           trace = [LockGuard, Constructed 0 ''render-1'' Odd, IsWorkingSet 0 True,
                    CallbackRun ''makeCurrent'', Unlocked]\<rparr> = Inr s2 \<and>
      acquireThread ''render-1'' ''makeCurrent'' s2 = Inr (0, s3) \<and>
      workers s3 = [\<lparr>mName = ''render-1'', mAffinity = Odd, mIsWorking = True\<rparr>] \<and>
      mThreadPool s3 = [])"
proof -
  have first: "acquireThread ''render-1'' ''makeCurrent'' (initial :: string state) =
     Inr (0, \<lparr>mThreadPool = [],
              workers = [\<lparr>mName = ''render-1'', mAffinity = Odd, mIsWorking = True\<rparr>],
              trace = [LockGuard, Constructed 0 ''render-1'' Odd, IsWorkingSet 0 True,
                       CallbackRun ''makeCurrent'', Unlocked]\<rparr>)"
    by (simp add: run_calls)
  from release_then_acquire_reuses
    [OF first, of "''doneCurrent''" "''render-1''" "''makeCurrent''"] first
  show ?thesis by auto
qed

text \<open>
  Claim C9. \<open>acquireThread\<close> and \<open>releaseThread\<close> change the pool at its top only. An
  \<open>acquireThread\<close> on a pool with a live Worker on top returns that Worker and leaves the
  rest of the pool, in order; on an empty pool it leaves the pool empty. A
  \<open>releaseThread\<close> of a live Worker leaves the pool it found, with the Worker pushed on
  top.
\<close>

theorem pool_changes_only_at_top:
  "((case mThreadPool s of [] \<Rightarrow> True | t # rest \<Rightarrow> t < length (workers s)) \<longrightarrow>
      (\<exists>thread s'. acquireThread name onAcquire s = Inr (thread, s') \<and>
         (case mThreadPool s of
            [] \<Rightarrow> mThreadPool s' = []
          | t # rest \<Rightarrow> thread = t \<and> mThreadPool s' = rest))) \<and>
   (released < length (workers s) \<longrightarrow>
      (\<exists>s'. releaseThread released onRelease s = Inr s' \<and>
         mThreadPool s' = released # mThreadPool s))"
proof (intro conjI impI)
  assume "case mThreadPool s of [] \<Rightarrow> True | t # rest \<Rightarrow> t < length (workers s)"
  then show "\<exists>thread s'. acquireThread name onAcquire s = Inr (thread, s') \<and>
         (case mThreadPool s of
            [] \<Rightarrow> mThreadPool s' = []
          | t # rest \<Rightarrow> thread = t \<and> mThreadPool s' = rest)"
    by (cases "mThreadPool s") (simp_all add: acquireThread_empty acquireThread_top)
next
  assume "released < length (workers s)"
  then show "\<exists>s'. releaseThread released onRelease s = Inr s' \<and>
         mThreadPool s' = released # mThreadPool s"
    by (simp add: releaseThread_live)
qed

theorem pool_changes_only_at_top_witness:
  "(\<exists>thread s'.
      acquireThread ''render-4'' ''makeCurrent''
          \<lparr>mThreadPool = [2, 0, 1],
           workers = [\<lparr>mName = ''render-1'', mAffinity = Odd, mIsWorking = False\<rparr>,
                      \<lparr>mName = ''render-2'', mAffinity = Odd, mIsWorking = False\<rparr>,
                      \<lparr>mName = ''render-3'', mAffinity = Odd, mIsWorking = False\<rparr>],
           trace = []\<rparr> = Inr (thread, s') \<and>
      thread = 2 \<and> mThreadPool s' = [0, 1]) \<and>
   (\<exists>s'.
      releaseThread 2 ''doneCurrent''
          \<lparr>mThreadPool = [0, 1],
           workers = [\<lparr>mName = ''render-1'', mAffinity = Odd, mIsWorking = False\<rparr>,
                      \<lparr>mName = ''render-2'', mAffinity = Odd, mIsWorking = False\<rparr>,
                      \<lparr>mName = ''render-3'', mAffinity = Odd, mIsWorking = True\<rparr>],
           trace = []\<rparr> = Inr s' \<and>
      mThreadPool s' = [2, 0, 1])"
  using
    pool_changes_only_at_top
      [of "\<lparr>mThreadPool = [2, 0, 1],
           workers = [\<lparr>mName = ''render-1'', mAffinity = Odd, mIsWorking = False\<rparr>,
                      \<lparr>mName = ''render-2'', mAffinity = Odd, mIsWorking = False\<rparr>,
                      \<lparr>mName = ''render-3'', mAffinity = Odd, mIsWorking = False\<rparr>],
           trace = []\<rparr>" "''render-4''" "''makeCurrent''" 2 "''doneCurrent''"]
    pool_changes_only_at_top
      [of "\<lparr>mThreadPool = [0, 1],
           workers = [\<lparr>mName = ''render-1'', mAffinity = Odd, mIsWorking = False\<rparr>,
                      \<lparr>mName = ''render-2'', mAffinity = Odd, mIsWorking = False\<rparr>,
                      \<lparr>mName = ''render-3'', mAffinity = Odd, mIsWorking = True\<rparr>],
           trace = []\<rparr>" "''render-4''" "''makeCurrent''" 2 "''doneCurrent''"]
  by simp


text \<open>
  Claim C3, as the code has it. \<open>releaseThread\<close> checks nothing about the Worker it is given:
  for every live Worker, whether it was acquired from this ThreadManager or not and whether
  it is in the pool already or not, the call returns and has pushed the Worker, so that
  the pool holds it once more than before.
\<close>

theorem releaseThread_never_refuses:
  assumes "thread < length (workers s)"
  shows "\<exists>s'. releaseThread thread onRelease s = Inr s' \<and>
           mThreadPool s' = thread # mThreadPool s \<and>
           count_list (mThreadPool s') thread = Suc (count_list (mThreadPool s) thread)"
  using assms by (simp add: releaseThread_live)

theorem releaseThread_never_refuses_witness:
  "(0::nat) < length [\<lparr>mName = ''render-1'', mAffinity = Odd, mIsWorking = False\<rparr>] \<and>
   (\<exists>s'. releaseThread 0 ''doneCurrent''
            \<lparr>mThreadPool = [0],
             workers = [\<lparr>mName = ''render-1'', mAffinity = Odd, mIsWorking = False\<rparr>],
             trace = []\<rparr> = Inr s' \<and>
         mThreadPool s' = [0, 0] \<and> count_list (mThreadPool s') 0 = 2)"
  using releaseThread_never_refuses
    [of 0 "\<lparr>mThreadPool = [0],
             workers = [\<lparr>mName = ''render-1'', mAffinity = Odd, mIsWorking = False\<rparr>],
             trace = []\<rparr>" "''doneCurrent''"]
  by (simp add: numeral_2_eq_2)

text \<open>
  Claim C3 as stated fails. A Worker is acquired, released and released again: the second
  release returns like the first and the pool holds the Worker twice. A Worker that the
  ThreadManager never handed out (the pool and the trace are empty) is released: the call
  returns and the Worker is in the pool.
\<close>

theorem double_release_is_accepted:
  "do_calls [AcquireThread ''render-1'' ''makeCurrent'',
             ReleaseThread 0 ''doneCurrent'',
             ReleaseThread 0 ''doneCurrent''] (initial, []) =
     Inr (\<lparr>mThreadPool = [0, 0],
           workers = [\<lparr>mName = ''render-1'', mAffinity = Odd, mIsWorking = False\<rparr>],
           trace = [LockGuard, Constructed 0 ''render-1'' Odd, IsWorkingSet 0 True,
                    CallbackRun ''makeCurrent'', Unlocked,
                    LockGuard, IsWorkingSet 0 False, QueueReleased 0,
                    CallbackRun ''doneCurrent'', Pushed 0, Unlocked,
                    LockGuard, IsWorkingSet 0 False, QueueReleased 0,
                    CallbackRun ''doneCurrent'', Pushed 0, Unlocked]\<rparr>, []) \<and>
   releaseThread 0 ''doneCurrent''
       \<lparr>mThreadPool = [],
        workers = [\<lparr>mName = ''stray'', mAffinity = Even, mIsWorking = False\<rparr>],
        trace = []\<rparr> =
     Inr \<lparr>mThreadPool = [0],
          workers = [\<lparr>mName = ''stray'', mAffinity = Even, mIsWorking = False\<rparr>],
          trace = [LockGuard, IsWorkingSet 0 False, QueueReleased 0,
                   CallbackRun ''doneCurrent'', Pushed 0, Unlocked]\<rparr>"
  by (simp add: run_calls)

section \<open>In the pool or lent out\<close>

lemma pool_xor_lent_acquire:
  assumes "pool_xor_lent (s, lent)"
  shows "\<exists>thread s'. acquireThread name onAcquire s = Inr (thread, s') \<and>
           thread \<notin> set lent \<and> pool_xor_lent (s', thread # lent)"
proof (cases "mThreadPool s")
  case Nil
  from assms Nil have lent: "set lent = {..<length (workers s)}" and d: "distinct lent"
    by (simp_all add: pool_xor_lent_def)
  from lent have fresh: "length (workers s) \<notin> set lent" by simp
  with Nil lent d show ?thesis
    by (auto simp: acquireThread_empty pool_xor_lent_def lessThan_Suc)
next
  case (Cons t rest)
  from assms Cons have d: "distinct (t # rest @ lent)"
    and u: "insert t (set rest \<union> set lent) = {..<length (workers s)}"
    by (simp_all add: pool_xor_lent_def)
  from u have live: "t < length (workers s)" by blast
  from d have nl: "t \<notin> set lent" by simp
  have u': "set rest \<union> insert t (set lent) = {..<length (workers s)}"
    using u by blast
  from Cons live d u' nl show ?thesis
    by (simp add: acquireThread_top pool_xor_lent_def)
qed

lemma pool_xor_lent_release:
  assumes "pool_xor_lent (s, lent)" and "thread \<in> set lent"
  shows "\<exists>s'. releaseThread thread onRelease s = Inr s' \<and>
           pool_xor_lent (s', remove1 thread lent)"
proof -
  from assms(1) have d: "distinct (mThreadPool s @ lent)"
    and u: "set (mThreadPool s) \<union> set lent = {..<length (workers s)}"
    by (simp_all add: pool_xor_lent_def)
  from u assms(2) have live: "thread < length (workers s)" by blast
  from d assms(2) have np: "thread \<notin> set (mThreadPool s)" by auto
  from d have dl: "distinct lent" by simp
  have d': "distinct ((thread # mThreadPool s) @ remove1 thread lent)"
    using d np dl by auto
  have u': "set (thread # mThreadPool s) \<union> set (remove1 thread lent) =
            {..<length (workers s)}"
    using u assms(2) dl by auto
  from live d' u' show ?thesis
    by (simp add: releaseThread_live pool_xor_lent_def)
qed

lemma pool_xor_lent_do_calls:
  "pool_xor_lent c \<Longrightarrow> releases_lent cs c \<Longrightarrow>
   \<exists>c'. do_calls cs c = Inr c' \<and> pool_xor_lent c'"
proof (induction cs arbitrary: c)
  case Nil
  then show ?case by simp
next
  case (Cons x xs)
  obtain s lent where c: "c = (s, lent)" by (cases c)
  show ?case
  proof (cases x)
    case (AcquireThread name onAcquire)
    from pool_xor_lent_acquire [of s lent name onAcquire] Cons.prems(1) c
    obtain thread s' where a: "acquireThread name onAcquire s = Inr (thread, s')"
      and inv: "pool_xor_lent (s', thread # lent)" by auto
    from a c AcquireThread Cons.prems(2) have "releases_lent xs (s', thread # lent)" by simp
    from Cons.IH [OF inv this] a c AcquireThread show ?thesis by simp
  next
    case (ReleaseThread thread onRelease)
    with Cons.prems(2) c have mem: "thread \<in> set lent" by simp
    from pool_xor_lent_release [of s lent thread onRelease] Cons.prems(1) c mem
    obtain s' where r: "releaseThread thread onRelease s = Inr s'"
      and inv: "pool_xor_lent (s', remove1 thread lent)" by auto
    from r c ReleaseThread Cons.prems(2) have "releases_lent xs (s', remove1 thread lent)"
      by simp
    from Cons.IH [OF inv this] r c ReleaseThread show ?thesis by simp
  qed
qed

lemma pool_xor_lent_initial: "pool_xor_lent (initial, [])"
  by (simp add: pool_xor_lent_def initial_def)

text \<open>
  Claim C4, as the code has it. Start from a new ThreadManager and run any sequence of
  \<open>acquireThread\<close> and \<open>releaseThread\<close> calls in which every \<open>releaseThread\<close> is given a Worker
  that is lent out at that moment. Then every call returns, and in the state reached every
  Worker is in the pool or lent out and not both, no Worker is twice in the pool or lent
  twice, and the next \<open>acquireThread\<close> returns a Worker that is not lent out.
\<close>

theorem pool_xor_lent_when_releases_lent:
  assumes "releases_lent cs (initial, [])"
  shows "\<exists>s lent. do_calls cs (initial, []) = Inr (s, lent) \<and>
           (\<forall>w<length (workers s). (w \<in> set (mThreadPool s)) \<noteq> (w \<in> set lent)) \<and>
           distinct (mThreadPool s) \<and> distinct lent \<and>
           (\<exists>thread s'. acquireThread name onAcquire s = Inr (thread, s') \<and>
              thread \<notin> set lent)"
proof -
  from pool_xor_lent_do_calls [OF pool_xor_lent_initial assms]
  obtain s lent where run: "do_calls cs (initial, []) = Inr (s, lent)"
    and inv: "pool_xor_lent (s, lent)" by auto
  from inv have "distinct (mThreadPool s @ lent)"
    and "set (mThreadPool s) \<union> set lent = {..<length (workers s)}"
    by (simp_all add: pool_xor_lent_def)
  then have x: "\<forall>w<length (workers s). (w \<in> set (mThreadPool s)) \<noteq> (w \<in> set lent)"
    and d: "distinct (mThreadPool s)" "distinct lent"
    by auto
  from pool_xor_lent_acquire [OF inv, of name onAcquire] run x d show ?thesis by auto
qed

theorem pool_xor_lent_when_releases_lent_witness:
  "releases_lent [AcquireThread ''render-1'' ''makeCurrent'',
                  AcquireThread ''render-2'' ''makeCurrent'',
                  ReleaseThread 0 ''doneCurrent''] (initial, []) \<and>
   (\<exists>s lent.
      do_calls [AcquireThread ''render-1'' ''makeCurrent'',
                AcquireThread ''render-2'' ''makeCurrent'',
                ReleaseThread 0 ''doneCurrent''] (initial, []) = Inr (s, lent) \<and>
      mThreadPool s = [0] \<and> lent = [1] \<and>
      (\<exists>thread s'. acquireThread ''render-3'' ''makeCurrent'' s = Inr (thread, s') \<and>
         thread \<notin> set lent))"
proof -
  have ok: "releases_lent [AcquireThread ''render-1'' ''makeCurrent'',
                  AcquireThread ''render-2'' ''makeCurrent'',
                  ReleaseThread 0 ''doneCurrent''] (initial, [])"
    by (simp add: run_calls)
  have run: "do_calls [AcquireThread ''render-1'' ''makeCurrent'',
                AcquireThread ''render-2'' ''makeCurrent'',
                ReleaseThread 0 ''doneCurrent''] (initial, []) =
     Inr (\<lparr>mThreadPool = [0],
           workers = [\<lparr>mName = ''render-1'', mAffinity = Odd, mIsWorking = False\<rparr>,
                      \<lparr>mName = ''render-2'', mAffinity = Odd, mIsWorking = True\<rparr>],
           trace = [LockGuard, Constructed 0 ''render-1'' Odd, IsWorkingSet 0 True,
                    CallbackRun ''makeCurrent'', Unlocked,
                    LockGuard, Constructed 1 ''render-2'' Odd, IsWorkingSet 1 True,
                    CallbackRun ''makeCurrent'', Unlocked,
                    LockGuard, IsWorkingSet 0 False, QueueReleased 0,
                    CallbackRun ''doneCurrent'', Pushed 0, Unlocked]\<rparr>, [1])"
    by (simp add: run_calls)
  from pool_xor_lent_when_releases_lent [OF ok, of "''render-3''" "''makeCurrent''"] ok run
  show ?thesis by auto
qed

text \<open>
  Claim C4 as stated fails, since the sequence of calls may be any. A Worker is acquired
  and released twice; the next \<open>acquireThread\<close> returns it and leaves its second entry in
  the pool, so Worker 0 is in the pool and lent out at once. The \<open>acquireThread\<close> after
  that returns Worker 0 again, while the first caller still holds it.
\<close>

theorem double_release_breaks_pool_xor_lent:
  "do_calls [AcquireThread ''render-1'' ''makeCurrent'',
             ReleaseThread 0 ''doneCurrent'',
             ReleaseThread 0 ''doneCurrent'',
             AcquireThread ''render-2'' ''makeCurrent''] (initial, []) =
     Inr (\<lparr>mThreadPool = [0],
           workers = [\<lparr>mName = ''render-1'', mAffinity = Odd, mIsWorking = True\<rparr>],
           trace = [LockGuard, Constructed 0 ''render-1'' Odd, IsWorkingSet 0 True,
                    CallbackRun ''makeCurrent'', Unlocked,
                    LockGuard, IsWorkingSet 0 False, QueueReleased 0,
                    CallbackRun ''doneCurrent'', Pushed 0, Unlocked,
                    LockGuard, IsWorkingSet 0 False, QueueReleased 0,
                    CallbackRun ''doneCurrent'', Pushed 0, Unlocked,
                    LockGuard, Popped 0, IsWorkingSet 0 True,
                    CallbackRun ''makeCurrent'', Unlocked]\<rparr>, [0]) \<and>
   do_calls [AcquireThread ''render-1'' ''makeCurrent'',
             ReleaseThread 0 ''doneCurrent'',
             ReleaseThread 0 ''doneCurrent'',
             AcquireThread ''render-2'' ''makeCurrent'',
             AcquireThread ''render-3'' ''makeCurrent''] (initial, []) =
     Inr (\<lparr>mThreadPool = [],
           workers = [\<lparr>mName = ''render-1'', mAffinity = Odd, mIsWorking = True\<rparr>],
           trace = [LockGuard, Constructed 0 ''render-1'' Odd, IsWorkingSet 0 True,
                    CallbackRun ''makeCurrent'', Unlocked,
                    LockGuard, IsWorkingSet 0 False, QueueReleased 0,
                    CallbackRun ''doneCurrent'', Pushed 0, Unlocked,
                    LockGuard, IsWorkingSet 0 False, QueueReleased 0,
                    CallbackRun ''doneCurrent'', Pushed 0, Unlocked,
                    LockGuard, Popped 0, IsWorkingSet 0 True,
                    CallbackRun ''makeCurrent'', Unlocked,
                    LockGuard, Popped 0, IsWorkingSet 0 True,
                    CallbackRun ''makeCurrent'', Unlocked]\<rparr>, [0, 0])"
  by (simp add: run_calls)

section \<open>The affinity of new Workers\<close>

lemma constructions_append: "constructions (es @ es') = constructions es @ constructions es'"
  by (induction es rule: constructions.induct) simp_all

lemma affinities_flag:
  "t < length (workers s) \<Longrightarrow>
   map mAffinity ((workers s)[t := (workers s ! t)\<lparr>mIsWorking := b\<rparr>]) =
   map mAffinity (workers s)"
  by (simp add: map_update list_update_same_conv)

lemma acquireThread_affinities:
  assumes "acquireThread name onAcquire s = Inr (thread, s')"
  shows "\<exists>k. affinities s' = affinities s @ replicate k Odd \<and>
             constructions (trace s') = constructions (trace s) @ replicate k Odd"
proof (cases "mThreadPool s")
  case Nil
  with assms have "affinities s' = affinities s @ replicate 1 Odd \<and>
      constructions (trace s') = constructions (trace s) @ replicate 1 Odd"
    by (auto simp: acquireThread_empty affinities_def constructions_append)
  then show ?thesis by blast
next
  case (Cons t rest)
  show ?thesis
  proof (cases "t < length (workers s)")
    case True
    with Cons assms have "affinities s' = affinities s @ replicate 0 Odd \<and>
        constructions (trace s') = constructions (trace s) @ replicate 0 Odd"
      by (auto simp: acquireThread_top affinities_def constructions_append affinities_flag)
    then show ?thesis by blast
  next
    case False
    with Cons assms show ?thesis by (simp add: acquireThread_dangling)
  qed
qed

lemma releaseThread_affinities:
  assumes "releaseThread thread onRelease s = Inr s'"
  shows "affinities s' = affinities s \<and> constructions (trace s') = constructions (trace s)"
proof (cases "thread < length (workers s)")
  case True
  with assms show ?thesis
    by (auto simp: releaseThread_live affinities_def constructions_append affinities_flag)
next
  case False
  with assms show ?thesis by (simp add: releaseThread_dangling)
qed

text \<open>
  Claim C1, as the code has it. Whatever the sequence of calls and the state it starts
  from, every Worker that the calls construct gets the tag \<open>Affinity::Odd\<close>: the tags
  passed to the constructor, and the tags of the Workers added to the store, are \<open>Odd\<close>
  k times over, where k is the number of Workers constructed.
\<close>

theorem every_new_Worker_is_Odd:
  "do_calls cs (s, lent) = Inr (s', lent') \<Longrightarrow>
   \<exists>k. affinities s' = affinities s @ replicate k Odd \<and>
       constructions (trace s') = constructions (trace s) @ replicate k Odd"
proof (induction cs arbitrary: s lent)
  case Nil
  then have "affinities s' = affinities s @ replicate 0 Odd \<and>
       constructions (trace s') = constructions (trace s) @ replicate 0 Odd" by simp
  then show ?case by blast
next
  case (Cons x xs)
  from Cons.prems obtain s1 lent1 where step: "do_call x (s, lent) = Inr (s1, lent1)"
    and rest: "do_calls xs (s1, lent1) = Inr (s', lent')"
    by (auto split: sum.splits)
  from Cons.IH [OF rest] obtain k where
    k: "affinities s' = affinities s1 @ replicate k Odd"
       "constructions (trace s') = constructions (trace s1) @ replicate k Odd" by blast
  have "\<exists>j. affinities s1 = affinities s @ replicate j Odd \<and>
       constructions (trace s1) = constructions (trace s) @ replicate j Odd"
  proof (cases x)
    case (AcquireThread name onAcquire)
    with step obtain thread where "acquireThread name onAcquire s = Inr (thread, s1)"
      by (auto split: sum.splits)
    then show ?thesis by (rule acquireThread_affinities)
  next
    case (ReleaseThread thread onRelease)
    with step have "releaseThread thread onRelease s = Inr s1"
      by (auto split: sum.splits)
    from releaseThread_affinities [OF this]
    have "affinities s1 = affinities s @ replicate 0 Odd \<and>
       constructions (trace s1) = constructions (trace s) @ replicate 0 Odd" by simp
    then show ?thesis by blast
  qed
  then obtain j where
    j: "affinities s1 = affinities s @ replicate j Odd"
       "constructions (trace s1) = constructions (trace s) @ replicate j Odd" by blast
  from k j have "affinities s' = affinities s @ replicate (j + k) Odd \<and>
       constructions (trace s') = constructions (trace s) @ replicate (j + k) Odd"
    by (simp add: replicate_add)
  then show ?case by blast
qed

theorem every_new_Worker_is_Odd_witness:
  "do_calls [AcquireThread ''render-1'' ''makeCurrent'',
             ReleaseThread 0 ''doneCurrent'',
             AcquireThread ''render-2'' ''makeCurrent'',
             AcquireThread ''render-3'' ''makeCurrent''] (initial, []) =
     Inr (\<lparr>mThreadPool = [],
           workers = [\<lparr>mName = ''render-1'', mAffinity = Odd, mIsWorking = True\<rparr>,
                      \<lparr>mName = ''render-3'', mAffinity = Odd, mIsWorking = True\<rparr>],
           trace = [LockGuard, Constructed 0 ''render-1'' Odd, IsWorkingSet 0 True,
                    CallbackRun ''makeCurrent'', Unlocked,
                    LockGuard, IsWorkingSet 0 False, QueueReleased 0,
                    CallbackRun ''doneCurrent'', Pushed 0, Unlocked,
                    LockGuard, Popped 0, IsWorkingSet 0 True,
                    CallbackRun ''makeCurrent'', Unlocked,
                    LockGuard, Constructed 1 ''render-3'' Odd, IsWorkingSet 1 True,
                    CallbackRun ''makeCurrent'', Unlocked]\<rparr>, [1, 0]) \<and>
   (\<exists>k. [Odd, Odd] = affinities (initial :: string state) @ replicate k Odd \<and>
        [Odd, Odd] = constructions (trace (initial :: string state)) @ replicate k Odd)"
proof -
  have run: "do_calls [AcquireThread ''render-1'' ''makeCurrent'',
             ReleaseThread 0 ''doneCurrent'',
             AcquireThread ''render-2'' ''makeCurrent'',
             AcquireThread ''render-3'' ''makeCurrent''] (initial, []) =
     Inr (\<lparr>mThreadPool = [],
           workers = [\<lparr>mName = ''render-1'', mAffinity = Odd, mIsWorking = True\<rparr>,
                      \<lparr>mName = ''render-3'', mAffinity = Odd, mIsWorking = True\<rparr>],
           trace = [LockGuard, Constructed 0 ''render-1'' Odd, IsWorkingSet 0 True,
                    CallbackRun ''makeCurrent'', Unlocked,
                    LockGuard, IsWorkingSet 0 False, QueueReleased 0,
                    CallbackRun ''doneCurrent'', Pushed 0, Unlocked,
                    LockGuard, Popped 0, IsWorkingSet 0 True,
                    CallbackRun ''makeCurrent'', Unlocked,
                    LockGuard, Constructed 1 ''render-3'' Odd, IsWorkingSet 1 True,
                    CallbackRun ''makeCurrent'', Unlocked]\<rparr>, [1, 0])"
    by (simp add: run_calls)
  from every_new_Worker_is_Odd [OF run] run show ?thesis
    by (simp add: affinities_def)
qed

text \<open>
  Claim C1 as stated fails. Two calls of \<open>acquireThread\<close> on a new ThreadManager construct
  two Workers one after the other, and both get the tag \<open>Odd\<close>: the tags do not alternate.
\<close>

theorem two_new_Workers_both_Odd:
  "do_calls [AcquireThread ''render-1'' ''makeCurrent'',
             AcquireThread ''render-2'' ''makeCurrent''] (initial, []) =
     Inr (\<lparr>mThreadPool = [],
           workers = [\<lparr>mName = ''render-1'', mAffinity = Odd, mIsWorking = True\<rparr>,
                      \<lparr>mName = ''render-2'', mAffinity = Odd, mIsWorking = True\<rparr>],
           trace = [LockGuard, Constructed 0 ''render-1'' Odd, IsWorkingSet 0 True,
                    CallbackRun ''makeCurrent'', Unlocked,
                    LockGuard, Constructed 1 ''render-2'' Odd, IsWorkingSet 1 True,
                    CallbackRun ''makeCurrent'', Unlocked]\<rparr>, [1, 0]) \<and>
   \<not> alternating
       (affinities
          \<lparr>mThreadPool = [],
           workers = [\<lparr>mName = ''render-1'', mAffinity = Odd, mIsWorking = True\<rparr>,
                      \<lparr>mName = ''render-2'', mAffinity = Odd, mIsWorking = True\<rparr>],
           trace = [LockGuard, Constructed 0 ''render-1'' Odd, IsWorkingSet 0 True,
                    CallbackRun ''makeCurrent'', Unlocked,
                    LockGuard, Constructed 1 ''render-2'' Odd, IsWorkingSet 1 True,
                    CallbackRun ''makeCurrent'', Unlocked]\<rparr>)"
  by (simp add: run_calls affinities_def)


section \<open>The claims about the singleton\<close>

lemma getInstance_eq:
  "getInstance g =
     (case mInstance g of
        None \<Rightarrow>
          (Some (constructed g),
           g\<lparr>mInstance := Some (constructed g), constructed := Suc (constructed g),
             accesses := accesses g @ [MutexLocked, InstanceChecked,
                                       ManagerConstructed (constructed g), MutexUnlocked]\<rparr>)
      | Some p \<Rightarrow>
          (Some p,
           g\<lparr>accesses := accesses g @ [MutexLocked, InstanceChecked, MutexUnlocked]\<rparr>))"
  by (simp add: getInstance_def logged_def new_ThreadManager_def Let_def split: option.split)

text \<open>
  Claim C2, as the code has it. Every call of \<open>getInstance\<close> takes the lock first, checks
  the pointer once while it holds the lock, constructs the ThreadManager if the pointer is
  null, and gives the lock back last. A call that finds the instance constructed takes the
  lock all the same.
\<close>

theorem getInstance_locks_on_every_call:
  "accesses (snd (getInstance g)) =
     accesses g @ [MutexLocked, InstanceChecked] @
       (case mInstance g of None \<Rightarrow> [ManagerConstructed (constructed g)] | Some p \<Rightarrow> []) @
       [MutexUnlocked]"
  by (simp add: getInstance_eq split: option.split)

theorem getInstance_locks_on_every_call_witness:
  "accesses (snd (getInstance \<lparr>mInstance = Some 0, constructed = 1, accesses = []\<rparr>)) =
     [MutexLocked, InstanceChecked, MutexUnlocked]"
  using getInstance_locks_on_every_call
    [of "\<lparr>mInstance = Some 0, constructed = 1, accesses = []\<rparr>"]
  by simp

text \<open>
  Claim C2 as stated fails. The first call at program start constructs the instance. The
  second call finds it constructed and still takes the lock, and checks the pointer only
  after that; double-checked locking as the spec words it would check the pointer and
  return without touching the lock.
\<close>

theorem second_getInstance_takes_the_lock:
  "getInstance startup =
     (Some 0, \<lparr>mInstance = Some 0, constructed = 1,
               accesses = [MutexLocked, InstanceChecked, ManagerConstructed 0,
                           MutexUnlocked]\<rparr>) \<and>
   getInstance
       \<lparr>mInstance = Some 0, constructed = 1,
        accesses = [MutexLocked, InstanceChecked, ManagerConstructed 0, MutexUnlocked]\<rparr> =
     (Some 0, \<lparr>mInstance = Some 0, constructed = 1,
               accesses = [MutexLocked, InstanceChecked, ManagerConstructed 0, MutexUnlocked,
                           MutexLocked, InstanceChecked, MutexUnlocked]\<rparr>) \<and>
   getInstance_double_checked
       \<lparr>mInstance = Some 0, constructed = 1,
        accesses = [MutexLocked, InstanceChecked, ManagerConstructed 0, MutexUnlocked]\<rparr> =
     (Some 0, \<lparr>mInstance = Some 0, constructed = 1,
               accesses = [MutexLocked, InstanceChecked, ManagerConstructed 0, MutexUnlocked,
                           InstanceChecked]\<rparr>)"
  by (simp add: getInstance_eq getInstance_double_checked_def startup_def logged_def Let_def)

lemma getInstance_result:
  "fst (getInstance g) = mInstance (snd (getInstance g)) \<and>
   fst (getInstance g) \<noteq> None \<and>
   constructed (snd (getInstance g)) \<le> Suc (constructed g) \<and>
   (mInstance g \<noteq> None \<longrightarrow>
      mInstance (snd (getInstance g)) = mInstance g \<and>
      constructed (snd (getInstance g)) = constructed g)"
  by (simp add: getInstance_eq split: option.split)

lemma getInstances_Suc:
  "getInstances (Suc n) g =
     (fst (getInstance g) # fst (getInstances n (snd (getInstance g))),
      snd (getInstances n (snd (getInstance g))))"
  by (simp add: split_beta)

lemma getInstances_result:
  "length (fst (getInstances n g)) = n \<and>
   (\<forall>r\<in>set (fst (getInstances n g)). r \<noteq> None \<and> r = mInstance (snd (getInstances n g))) \<and>
   constructed (snd (getInstances n g)) \<le> Suc (constructed g) \<and>
   (mInstance g \<noteq> None \<longrightarrow>
      constructed (snd (getInstances n g)) = constructed g \<and>
      mInstance (snd (getInstances n g)) = mInstance g)"
proof (induction n arbitrary: g)
  case 0
  show ?case by simp
next
  case (Suc n)
  let ?g1 = "snd (getInstance g)"
  let ?rs = "fst (getInstances n ?g1)" and ?g2 = "snd (getInstances n ?g1)"
  from getInstance_result [of g]
  have r: "fst (getInstance g) = mInstance ?g1" and some: "fst (getInstance g) \<noteq> None"
    and le: "constructed ?g1 \<le> Suc (constructed g)"
    and keep: "mInstance g \<noteq> None \<longrightarrow>
      mInstance ?g1 = mInstance g \<and> constructed ?g1 = constructed g"
    by blast+
  from r some have set: "mInstance ?g1 \<noteq> None" by metis
  with Suc.IH [of ?g1] have len: "length ?rs = n"
    and all: "\<forall>r\<in>set ?rs. r \<noteq> None \<and> r = mInstance ?g2"
    and same: "constructed ?g2 = constructed ?g1" "mInstance ?g2 = mInstance ?g1"
    by blast+
  have "length (fst (getInstance g) # ?rs) = Suc n"
    using len by simp
  moreover have "\<forall>r\<in>set (fst (getInstance g) # ?rs). r \<noteq> None \<and> r = mInstance ?g2"
    using all r some same by simp
  moreover have "constructed ?g2 \<le> Suc (constructed g)"
    using le same by simp
  moreover have "mInstance g \<noteq> None \<longrightarrow>
      constructed ?g2 = constructed g \<and> mInstance ?g2 = mInstance g"
    using keep same by simp
  ultimately show ?case
    unfolding getInstances_Suc fst_conv snd_conv by blast
qed

text \<open>
  Claim C5. For every number of calls of \<open>getInstance\<close> made one after the other, from any
  state of the statics: every call returns, none returns \<open>nullptr\<close>, all return the same
  pointer, which is \<open>mInstance\<close> afterwards; at most one ThreadManager is constructed by all
  the calls together, and none when the instance was constructed before.
\<close>

theorem getInstances_one_instance:
  assumes "getInstances n g = (rs, g')"
  shows "length rs = n \<and>
         (\<forall>r\<in>set rs. r \<noteq> None \<and> r = mInstance g') \<and>
         constructed g' \<le> Suc (constructed g) \<and>
         (mInstance g \<noteq> None \<longrightarrow> constructed g' = constructed g \<and> mInstance g' = mInstance g)"
  using getInstances_result [of n g] assms by simp

theorem getInstances_one_instance_witness:
  "getInstances 3 startup =
     ([Some 0, Some 0, Some 0],
      \<lparr>mInstance = Some 0, constructed = 1,
        accesses = [MutexLocked, InstanceChecked, ManagerConstructed 0, MutexUnlocked,
                    MutexLocked, InstanceChecked, MutexUnlocked,
                    MutexLocked, InstanceChecked, MutexUnlocked]\<rparr>) \<and>
   length [Some (0::nat), Some 0, Some 0] = 3 \<and> constructed startup = 0"
proof -
  have run: "getInstances 3 startup =
     ([Some 0, Some 0, Some 0],
      \<lparr>mInstance = Some 0, constructed = 1,
        accesses = [MutexLocked, InstanceChecked, ManagerConstructed 0, MutexUnlocked,
                    MutexLocked, InstanceChecked, MutexUnlocked,
                    MutexLocked, InstanceChecked, MutexUnlocked]\<rparr>)"
    by (simp add: numeral_3_eq_3 getInstance_eq startup_def)
  from getInstances_one_instance [OF run] run show ?thesis
    by (simp add: startup_def)
qed

section \<open>The claim about cppInputCount\<close>

lemma uint_jlong_to_jint: "uint (ucast (x :: jlong) :: jint) = take_bit 32 (uint x)"
  by (simp add: unsigned_ucast_eq)

lemma uint_to_jlong: "uint (ucast (c :: 'a::len word) :: jlong) = take_bit 64 (uint c)"
  by (simp add: unsigned_ucast_eq)

lemma uint_cppInputCount:
  "uint (Java_app_rive_runtime_kotlin_core_StateMachineInstance_cppInputCount c) =
   take_bit 32 (uint c)"
  unfolding Java_app_rive_runtime_kotlin_core_StateMachineInstance_cppInputCount_def Let_def
  by (simp only: uint_jlong_to_jint uint_to_jlong take_bit_take_bit)

lemma sint_cppInputCount:
  "sint (Java_app_rive_runtime_kotlin_core_StateMachineInstance_cppInputCount c) =
   signed_take_bit 31 (uint c)"
  by (simp add: sint_uint uint_cppInputCount signed_take_bit_take_bit)

text \<open>
  Claim C10. The bits that \<open>cppInputCount\<close> returns are the input count modulo 2^32. Read
  as the signed \<open>jint\<close> that Java receives, the value is the input count exactly when the
  count is below 2^31, so only when the count fits in 32 bits.
\<close>

theorem cppInputCount_modulo_2_32:
  "uint (Java_app_rive_runtime_kotlin_core_StateMachineInstance_cppInputCount c) =
     uint c mod 2 ^ 32 \<and>
   (sint (Java_app_rive_runtime_kotlin_core_StateMachineInstance_cppInputCount c) = uint c) =
     (uint c < 2 ^ 31) \<and>
   (sint (Java_app_rive_runtime_kotlin_core_StateMachineInstance_cppInputCount c) = uint c
      \<longrightarrow> uint c < 2 ^ 32)"
proof -
  have "- (2 ^ 31) \<le> (0 :: int)" by simp
  also have "0 \<le> uint c" by simp
  finally have exact:
    "(sint (Java_app_rive_runtime_kotlin_core_StateMachineInstance_cppInputCount c) = uint c) =
     (uint c < 2 ^ 31)"
    by (simp add: sint_cppInputCount signed_take_bit_int_eq_self_iff)
  have "uint (Java_app_rive_runtime_kotlin_core_StateMachineInstance_cppInputCount c) =
     uint c mod 2 ^ 32"
    by (simp add: uint_cppInputCount take_bit_eq_mod)
  with exact show ?thesis by simp
qed

theorem cppInputCount_modulo_2_32_witness:
  "uint (Java_app_rive_runtime_kotlin_core_StateMachineInstance_cppInputCount
           (4294967301 :: 64 word)) = 5 \<and>
   sint (Java_app_rive_runtime_kotlin_core_StateMachineInstance_cppInputCount
           (4294967301 :: 64 word)) \<noteq> uint (4294967301 :: 64 word) \<and>
   sint (Java_app_rive_runtime_kotlin_core_StateMachineInstance_cppInputCount
           (7 :: 64 word)) = uint (7 :: 64 word) \<and>
   uint (7 :: 64 word) < 2 ^ 32"
  using cppInputCount_modulo_2_32 [of "4294967301 :: 64 word"]
    cppInputCount_modulo_2_32 [of "7 :: 64 word"]
  by simp


end
